theory Spec2Isabelle
  imports Main "HOL-Library.Sublist" "HOL-Library.AList" "HOL-Library.Word"
begin

section \<open>Strings, bytes and the library calls of Script2.py\<close>

text \<open>
  A Python \<open>str\<close> is a sequence of Unicode code points, so it is modelled as a list of
  natural numbers (one per code point), not as a list of bytes: \<open>str.strip()\<close> and
  \<open>str.split()\<close> remove code points such as U+00A0 and U+2003 that are not single bytes.
  \<open>lit\<close> turns an ASCII literal of the source into such a string.
\<close>

type_synonym str = "nat list"
type_synonym bytes = "8 word list"

definition lit :: "string \<Rightarrow> str" where
  "lit s = map of_char s"

definition nl :: nat where
  "nl = 10"

definition sp :: nat where
  "sp = 32"

definition slash :: nat where
  "slash = 47"

text \<open>
  \<open>s.split(sep)\<close> for a one-character separator: the text is cut at every occurrence of
  the separator, empty pieces are kept, and the result is never empty
  (\<open>"".split("\n") == [""]\<close>). \<open>cur\<close> is the piece being scanned.
\<close>

fun split_acc :: "nat \<Rightarrow> str \<Rightarrow> str \<Rightarrow> str list" where
  "split_acc sep cur [] = [cur]"
| "split_acc sep cur (c # cs) =
     (if c = sep then cur # split_acc sep [] cs else split_acc sep (cur @ [c]) cs)"

definition split_str :: "nat \<Rightarrow> str \<Rightarrow> str list" where
  "split_str sep s = split_acc sep [] s"

text \<open>
  The code points that CPython's \<open>str.isspace\<close>, \<open>str.strip()\<close> and \<open>str.split()\<close>
  treat as whitespace.
\<close>

definition is_space :: "nat \<Rightarrow> bool" where
  "is_space c \<longleftrightarrow>
     (9 \<le> c \<and> c \<le> 13) \<or> (28 \<le> c \<and> c \<le> 32) \<or> c = 133 \<or> c = 160 \<or> c = 5760 \<or>
     (8192 \<le> c \<and> c \<le> 8202) \<or> c = 8232 \<or> c = 8233 \<or> c = 8239 \<or> c = 8287 \<or> c = 12288"

definition lstrip :: "str \<Rightarrow> str" where
  "lstrip s = dropWhile is_space s"

definition rstrip :: "str \<Rightarrow> str" where
  "rstrip s = rev (dropWhile is_space (rev s))"

text \<open>\<open>s.strip()\<close> removes whitespace at both ends.\<close>

definition strip :: "str \<Rightarrow> str" where
  "strip s = rstrip (lstrip s)"

text \<open>
  \<open>s.split()\<close> without a separator: the text is cut at runs of whitespace and no empty
  piece is produced.
\<close>

fun split_ws_acc :: "str \<Rightarrow> str \<Rightarrow> str list" where
  "split_ws_acc cur [] = (if cur = [] then [] else [cur])"
| "split_ws_acc cur (c # cs) =
     (if is_space c then (if cur = [] then split_ws_acc [] cs else cur # split_ws_acc [] cs)
      else split_ws_acc (cur @ [c]) cs)"

definition split_ws :: "str \<Rightarrow> str list" where
  "split_ws s = split_ws_acc [] s"

text \<open>\<open>"".join(pieces)\<close>.\<close>

definition join_empty :: "str list \<Rightarrow> str" where
  "join_empty pieces = concat pieces"

text \<open>
  \<open>os.path.join\<close> on a POSIX system, one component at a time: a component that starts
  with \<open>/\<close> replaces what came before, and a separator is inserted unless the path so
  far is empty or already ends with one.
\<close>

definition join2 :: "str \<Rightarrow> str \<Rightarrow> str" where
  "join2 path b =
     (if prefix [slash] b then b
      else if path = [] \<or> last path = slash then path @ b
      else path @ [slash] @ b)"

definition os_path_join :: "str \<Rightarrow> str list \<Rightarrow> str" where
  "os_path_join a ps = foldl join2 a ps"

text \<open>
  The file system the program reads: a path names a regular file with its bytes, a
  directory, or nothing. \<open>os.path.exists\<close> is true for the first two; \<open>open(..., "rb")\<close>
  of a directory raises \<open>IsADirectoryError\<close>. Paths are looked up as the strings
  \<open>os.path.join\<close> builds; the program never changes the file system.
\<close>

datatype node = File bytes | Dir

type_synonym filesystem = "str \<rightharpoonup> node"

text \<open>
  \<open>zlib.decompress\<close> and \<open>bytes.decode("utf-8")\<close> are library calls, not code of this
  program. They are parameters of the model; \<open>None\<close> is the call raising
  (\<open>zlib.error\<close>, \<open>UnicodeDecodeError\<close>).
\<close>

record stdlib =
  zlib_decompress :: "bytes \<Rightarrow> bytes option"
  utf8_decode :: "bytes \<Rightarrow> str option"

datatype error = FileNotFoundError | IsADirectoryError | ZlibError | UnicodeDecodeError | IndexError

section \<open>read_git_object\<close>

definition object_dir :: "str \<Rightarrow> str \<Rightarrow> str" where
  "object_dir repo_path object_hash =
     os_path_join repo_path [lit ''.git'', lit ''objects'', take 2 object_hash]"

definition object_file :: "str \<Rightarrow> str \<Rightarrow> str" where
  "object_file repo_path object_hash =
     os_path_join (object_dir repo_path object_hash) [drop 2 object_hash]"

definition read_git_object :: "stdlib \<Rightarrow> filesystem \<Rightarrow> str \<Rightarrow> str \<Rightarrow> error + str" where
  "read_git_object lib fs repo_path object_hash =
     (case fs (object_file repo_path object_hash) of
        None \<Rightarrow> Inl FileNotFoundError
      | Some Dir \<Rightarrow> Inl IsADirectoryError
      | Some (File compressed_data) \<Rightarrow>
          (case zlib_decompress lib compressed_data of
             None \<Rightarrow> Inl ZlibError
           | Some decompressed_data \<Rightarrow>
               (case utf8_decode lib decompressed_data of
                  None \<Rightarrow> Inl UnicodeDecodeError
                | Some text \<Rightarrow> Inr text)))"

section \<open>get_commit_data\<close>

text \<open>\<open>line.split(" ")[1]\<close>: the index raises \<open>IndexError\<close> on a list shorter than two.\<close>

definition second_field :: "str \<Rightarrow> error + str" where
  "second_field line =
     (case split_str sp line of
        _ # p # _ \<Rightarrow> Inr p
      | _ \<Rightarrow> Inl IndexError)"

text \<open>
  The \<open>for line in lines\<close> loop, with the three variables it updates as arguments.
\<close>

fun commit_loop :: "str list \<Rightarrow> str list \<Rightarrow> str \<Rightarrow> bool \<Rightarrow> error + (str list \<times> str)" where
  "commit_loop [] parents message is_message = Inr (parents, message)"
| "commit_loop (line # lines) parents message is_message =
     (if is_message then commit_loop lines parents (message @ line @ [nl]) is_message
      else if prefix (lit ''parent '') line then
        (case second_field line of
           Inl e \<Rightarrow> Inl e
         | Inr p \<Rightarrow> commit_loop lines (parents @ [p]) message is_message)
      else if line = [] then commit_loop lines parents message True
      else commit_loop lines parents message is_message)"

text \<open>What \<open>get_commit_data\<close> does with the text once \<open>read_git_object\<close> has returned it.\<close>

definition parse_commit :: "str \<Rightarrow> error + (str list \<times> str)" where
  "parse_commit commit_data =
     (case commit_loop (split_str nl commit_data) [] [] False of
        Inl e \<Rightarrow> Inl e
      | Inr (parents, message) \<Rightarrow> Inr (parents, strip message))"

definition get_commit_data :: "stdlib \<Rightarrow> filesystem \<Rightarrow> str \<Rightarrow> str \<Rightarrow> error + (str list \<times> str)" where
  "get_commit_data lib fs repo_path commit_hash =
     (case read_git_object lib fs repo_path commit_hash of
        Inl e \<Rightarrow> Inl e
      | Inr commit_data \<Rightarrow> parse_commit commit_data)"

section \<open>get_commit_graph\<close>

text \<open>
  A Python \<open>dict\<close> keeps its keys in insertion order, and \<open>generate_plantuml_graph\<close>
  iterates in that order, so the commit graph is an association list: \<open>d[k] = v\<close> is
  \<open>AList.update k v d\<close>, which replaces the value of a present key in place and appends
  an absent one at the end.

  The \<open>while stack\<close> loop pops from the end of the list and \<open>extend\<close> appends there.
  \<open>calls\<close> records, in order, the identifiers handed to \<open>get_commit_data\<close> (and so to
  \<open>read_git_object\<close>); it is returned beside the result. A raise of \<open>get_commit_data\<close>
  ends the loop with that error. \<open>None\<close> stands for a loop that never ends.
\<close>

type_synonym commit_graph = "(str \<times> str list) list"

partial_function (option) graph_loop ::
  "stdlib \<Rightarrow> filesystem \<Rightarrow> str \<Rightarrow> commit_graph \<Rightarrow> str list \<Rightarrow> str list \<Rightarrow>
   ((error + commit_graph) \<times> str list) option" where
  "graph_loop lib fs repo_path commit_graph stack calls =
     (if stack = [] then Some (Inr commit_graph, calls)
      else
        let current_commit = last stack; stack = butlast stack in
        if current_commit \<notin> fst ` set commit_graph then
          (case get_commit_data lib fs repo_path current_commit of
             Inl e \<Rightarrow> Some (Inl e, calls @ [current_commit])
           | Inr (parents, _) \<Rightarrow>
               graph_loop lib fs repo_path
                 (AList.update current_commit parents commit_graph)
                 (stack @ parents) (calls @ [current_commit]))
        else graph_loop lib fs repo_path commit_graph stack calls)"

declare graph_loop.simps [code]

definition get_commit_graph_calls ::
  "stdlib \<Rightarrow> filesystem \<Rightarrow> str \<Rightarrow> str \<Rightarrow> ((error + commit_graph) \<times> str list) option" where
  "get_commit_graph_calls lib fs repo_path starting_commit_hash =
     graph_loop lib fs repo_path [] [starting_commit_hash] []"

definition get_commit_graph ::
  "stdlib \<Rightarrow> filesystem \<Rightarrow> str \<Rightarrow> str \<Rightarrow> (error + commit_graph) option" where
  "get_commit_graph lib fs repo_path starting_commit_hash =
     map_option fst (get_commit_graph_calls lib fs repo_path starting_commit_hash)"

section \<open>generate_plantuml_graph\<close>

definition dq :: nat where
  "dq = 34"

text \<open>
  The inner \<open>for parent in parents\<close> loop. \<open>commit_message\<close> is already stripped of
  whitespace by the outer loop. \<open>calls\<close> records the identifiers handed to
  \<open>get_commit_data\<close>, as in \<open>graph_loop\<close>.
\<close>

fun render_parents ::
  "stdlib \<Rightarrow> filesystem \<Rightarrow> str \<Rightarrow> str \<Rightarrow> str \<Rightarrow> str list \<Rightarrow> str \<Rightarrow> str list \<Rightarrow>
   (error + str) \<times> str list" where
  "render_parents lib fs repo_path commit commit_message [] plantuml_code calls =
     (Inr plantuml_code, calls)"
| "render_parents lib fs repo_path commit commit_message (parent # parents) plantuml_code calls =
     (case get_commit_data lib fs repo_path parent of
        Inl e \<Rightarrow> (Inl e, calls @ [parent])
      | Inr (_, parent_message) \<Rightarrow>
          let parent_message = join_empty (split_ws parent_message) in
          render_parents lib fs repo_path commit commit_message parents
            (plantuml_code
               @ (lit ''participant '' @ parent_message @ lit '' as '' @ parent @ [nl])
               @ (lit ''participant '' @ commit_message @ lit '' as '' @ commit @ [nl])
               @ ([dq] @ parent @ [dq] @ lit '' --> '' @ [dq] @ commit @ [dq] @ [nl]))
            (calls @ [parent]))"

text \<open>The outer \<open>for commit, parents in commit_graph.items()\<close> loop.\<close>

fun render_items ::
  "stdlib \<Rightarrow> filesystem \<Rightarrow> str \<Rightarrow> commit_graph \<Rightarrow> str \<Rightarrow> str list \<Rightarrow>
   (error + str) \<times> str list" where
  "render_items lib fs repo_path [] plantuml_code calls = (Inr plantuml_code, calls)"
| "render_items lib fs repo_path ((commit, parents) # items) plantuml_code calls =
     (case get_commit_data lib fs repo_path commit of
        Inl e \<Rightarrow> (Inl e, calls @ [commit])
      | Inr (_, commit_message) \<Rightarrow>
          let commit_message = join_empty (split_ws commit_message) in
          (case render_parents lib fs repo_path commit commit_message parents plantuml_code
                  (calls @ [commit]) of
             (Inl e, calls') \<Rightarrow> (Inl e, calls')
           | (Inr plantuml_code', calls') \<Rightarrow>
               render_items lib fs repo_path items plantuml_code' calls'))"

definition generate_plantuml_graph_calls ::
  "stdlib \<Rightarrow> filesystem \<Rightarrow> commit_graph \<Rightarrow> str \<Rightarrow> (error + str) \<times> str list" where
  "generate_plantuml_graph_calls lib fs commit_graph repo_path =
     (case render_items lib fs repo_path commit_graph (lit ''@startuml'' @ [nl]) [] of
        (Inl e, calls) \<Rightarrow> (Inl e, calls)
      | (Inr plantuml_code, calls) \<Rightarrow> (Inr (plantuml_code @ lit ''@enduml''), calls))"

definition generate_plantuml_graph ::
  "stdlib \<Rightarrow> filesystem \<Rightarrow> commit_graph \<Rightarrow> str \<Rightarrow> error + str" where
  "generate_plantuml_graph lib fs commit_graph repo_path =
     fst (generate_plantuml_graph_calls lib fs commit_graph repo_path)"

section \<open>Vocabulary of the specification\<close>

text \<open>
  The specification describes the result of the decoder in terms of the lines of the
  commit text: the header lines are those before the first empty line, the message lines
  are those after it. These definitions follow the specification's words; the theorems
  below compare them with what \<open>commit_loop\<close> computes.
\<close>

definition header_lines :: "str \<Rightarrow> str list" where
  "header_lines text = takeWhile (\<lambda>l. l \<noteq> []) (split_str nl text)"

definition message_lines :: "str \<Rightarrow> str list" where
  "message_lines text = tl (dropWhile (\<lambda>l. l \<noteq> []) (split_str nl text))"

definition message_text :: "str \<Rightarrow> str" where
  "message_text text = concat (map (\<lambda>l. l @ [nl]) (message_lines text))"

text \<open>The text of a \<open>parent\<close> line between its first space and the next one.\<close>

definition parent_field :: "str \<Rightarrow> str" where
  "parent_field line = takeWhile (\<lambda>c. c \<noteq> sp) (drop 7 line)"

definition header_parents :: "str \<Rightarrow> str list" where
  "header_parents text =
     map parent_field (filter (prefix (lit ''parent '')) (header_lines text))"

text \<open>
  The object path as the specification writes it:
  \<open><root>/.git/objects/<first two characters>/<remaining characters>\<close>.
\<close>

definition derived_path :: "str \<Rightarrow> str \<Rightarrow> str" where
  "derived_path repo_path object_hash =
     repo_path @ lit ''/.git/objects/'' @ take 2 object_hash @ [slash] @ drop 2 object_hash"

text \<open>
  The diagram as the specification describes it. A commit can be rendered when
  \<open>get_commit_data\<close> returns for it; its label is its message with all whitespace
  removed. Every edge contributes a declaration of the parent, a declaration of the
  child and the arrow, and the document is these blocks between the two markers, in
  the order of the graph's entries and of each entry's parents.
\<close>

definition decodable :: "stdlib \<Rightarrow> filesystem \<Rightarrow> str \<Rightarrow> str \<Rightarrow> bool" where
  "decodable lib fs repo_path h =
     (case get_commit_data lib fs repo_path h of Inl _ \<Rightarrow> False | Inr _ \<Rightarrow> True)"

definition all_decodable :: "stdlib \<Rightarrow> filesystem \<Rightarrow> str \<Rightarrow> commit_graph \<Rightarrow> bool" where
  "all_decodable lib fs repo_path g =
     list_all (\<lambda>(c, ps). decodable lib fs repo_path c \<and> list_all (decodable lib fs repo_path) ps) g"

definition message_of :: "stdlib \<Rightarrow> filesystem \<Rightarrow> str \<Rightarrow> str \<Rightarrow> str" where
  "message_of lib fs repo_path h =
     (case get_commit_data lib fs repo_path h of Inl _ \<Rightarrow> [] | Inr (_, message) \<Rightarrow> message)"

definition no_whitespace :: "str \<Rightarrow> str" where
  "no_whitespace s = filter (\<lambda>c. \<not> is_space c) s"

definition label_of :: "stdlib \<Rightarrow> filesystem \<Rightarrow> str \<Rightarrow> str \<Rightarrow> str" where
  "label_of lib fs repo_path h = no_whitespace (message_of lib fs repo_path h)"

definition participant_line :: "str \<Rightarrow> str \<Rightarrow> str" where
  "participant_line label h = lit ''participant '' @ label @ lit '' as '' @ h @ [nl]"

definition edge_line :: "str \<Rightarrow> str \<Rightarrow> str" where
  "edge_line parent child = [dq] @ parent @ [dq] @ lit '' --> '' @ [dq] @ child @ [dq] @ [nl]"

definition edge_block :: "stdlib \<Rightarrow> filesystem \<Rightarrow> str \<Rightarrow> str \<Rightarrow> str \<Rightarrow> str" where
  "edge_block lib fs repo_path child parent =
     participant_line (label_of lib fs repo_path parent) parent @
     participant_line (label_of lib fs repo_path child) child @
     edge_line parent child"

definition document :: "stdlib \<Rightarrow> filesystem \<Rightarrow> str \<Rightarrow> commit_graph \<Rightarrow> str" where
  "document lib fs repo_path g =
     lit ''@startuml'' @ [nl] @
     concat (map (\<lambda>(c, ps). concat (map (edge_block lib fs repo_path c) ps)) g) @
     lit ''@enduml''"

text \<open>
  The decodes of the renderer as the specification counts them: for each entry and each
  parent of the entry, the commit and the parent.
\<close>

definition claimed_render_calls :: "commit_graph \<Rightarrow> str list" where
  "claimed_render_calls g = concat (map (\<lambda>(c, ps). concat (map (\<lambda>p. [c, p]) ps)) g)"

text \<open>
  The decodes as the code makes them: for each entry the commit, once, and then each of
  its parents.
\<close>

definition render_calls :: "commit_graph \<Rightarrow> str list" where
  "render_calls g = concat (map (\<lambda>(c, ps). c # ps) g)"

section \<open>The repository of test2.py\<close>

text \<open>
  The temporary repository that \<open>setUp\<close> of test2.py builds: two commit objects, the
  second the parent of the first. The texts are ASCII. In place of zlib the objects are
  held by a codec that stores the bytes as they are, and text is decoded as ASCII; the
  theorems below hold for every \<open>stdlib\<close>, and this one serves to run the program on
  concrete inputs.
\<close>

definition ascii_encode :: "str \<Rightarrow> bytes" where
  "ascii_encode s = map of_nat s"

definition ascii_decode :: "bytes \<Rightarrow> str option" where
  "ascii_decode bs = (if list_all (\<lambda>b. unat b < 128) bs then Some (map unat bs) else None)"

definition stored_lib :: stdlib where
  "stored_lib = \<lparr>zlib_decompress = Some, utf8_decode = ascii_decode\<rparr>"

definition test_repo_dir :: str where
  "test_repo_dir = lit ''/tmp/repo''"

definition test_commit_hash :: str where
  "test_commit_hash = lit ''1234567890abcdef1234567890abcdef12345678''"

definition test_parent_hash :: str where
  "test_parent_hash = lit ''fedcba0987654321fedcba0987654321fedcba09''"

definition test_parent_commit_data :: str where
  "test_parent_commit_data =
     lit ''tree abcdef1234567890abcdef1234567890abcdef12'' @ [nl] @
     lit ''author Parent Author <parent@example.com> 1695584200 +0000'' @ [nl] @
     lit ''committer Parent Author <parent@example.com> 1695584200 +0000'' @ [nl, nl] @
     lit ''Parent commit'' @ [nl]"

definition test_commit_data :: str where
  "test_commit_data =
     lit ''tree abcdef1234567890abcdef1234567890abcdef12'' @ [nl] @
     lit ''parent '' @ test_parent_hash @ [nl] @
     lit ''author Test Author <test@example.com> 1695584200 +0000'' @ [nl] @
     lit ''committer Test Author <test@example.com> 1695584200 +0000'' @ [nl, nl] @
     lit ''Initial commit'' @ [nl]"

definition test_fs :: filesystem where
  "test_fs =
     [derived_path test_repo_dir test_parent_hash \<mapsto> File (ascii_encode test_parent_commit_data),
      derived_path test_repo_dir test_commit_hash \<mapsto> File (ascii_encode test_commit_data)]"

text \<open>
  Two more stores under the same root, with short identifiers: a diamond
  (\<open>aa01\<close> has the parents \<open>bb02\<close> and \<open>cc03\<close>, which both have the parent \<open>dd04\<close>) and a
  cycle (\<open>aa01\<close> and \<open>bb02\<close> name each other as parent).
\<close>

definition diamond_fs :: filesystem where
  "diamond_fs =
     [derived_path test_repo_dir (lit ''aa01'') \<mapsto>
        File (ascii_encode
          (lit ''parent bb02'' @ [nl] @ lit ''parent cc03'' @ [nl, nl] @ lit ''merge'' @ [nl])),
      derived_path test_repo_dir (lit ''bb02'') \<mapsto>
        File (ascii_encode (lit ''parent dd04'' @ [nl, nl] @ lit ''left'' @ [nl])),
      derived_path test_repo_dir (lit ''cc03'') \<mapsto>
        File (ascii_encode (lit ''parent dd04'' @ [nl, nl] @ lit ''right'' @ [nl])),
      derived_path test_repo_dir (lit ''dd04'') \<mapsto>
        File (ascii_encode (lit ''tree ee05'' @ [nl, nl] @ lit ''root'' @ [nl]))]"

definition cycle_fs :: filesystem where
  "cycle_fs =
     [derived_path test_repo_dir (lit ''aa01'') \<mapsto>
        File (ascii_encode (lit ''parent bb02'' @ [nl, nl] @ lit ''one'' @ [nl])),
      derived_path test_repo_dir (lit ''bb02'') \<mapsto>
        File (ascii_encode (lit ''parent aa01'' @ [nl, nl] @ lit ''two'' @ [nl]))]"

section \<open>Facts about the string operations\<close>

lemma split_acc_hd:
  "\<exists>ws. split_acc sep cur s = (cur @ takeWhile (\<lambda>c. c \<noteq> sep) s) # ws"
proof (induction s arbitrary: cur)
  case Nil
  then show ?case by simp
next
  case (Cons a s)
  then show ?case using Cons [of "cur @ [a]"] by auto
qed

lemma split_acc_sep:
  "sep \<notin> set xs \<Longrightarrow> split_acc sep cur (xs @ sep # ys) = (cur @ xs) # split_acc sep [] ys"
  by (induction xs arbitrary: cur) auto

lemma lit_parent: "lit ''parent '' = [112, 97, 114, 101, 110, 116, sp]"
  by (simp add: lit_def sp_def)

lemma second_field_parent:
  assumes "prefix (lit ''parent '') line"
  shows "second_field line = Inr (parent_field line)"
proof -
  from assms obtain rest where line: "line = [112, 97, 114, 101, 110, 116] @ sp # rest"
    by (auto simp: lit_parent prefix_def)
  have "sp \<notin> set [112, 97, 114, 101, 110, 116::nat]"
    by (simp add: sp_def)
  then have "split_str sp line = [112, 97, 114, 101, 110, 116] # split_acc sp [] rest"
    unfolding split_str_def line by (subst split_acc_sep) simp_all
  moreover obtain ws where "split_acc sp [] rest = takeWhile (\<lambda>c. c \<noteq> sp) rest # ws"
    using split_acc_hd [of sp "[]" rest] by auto
  ultimately show ?thesis
    by (simp add: second_field_def parent_field_def line)
qed

section \<open>The decoding loop in closed form\<close>

lemma commit_loop_message:
  "commit_loop lines parents message True =
     Inr (parents, message @ concat (map (\<lambda>l. l @ [nl]) lines))"
  by (induction lines arbitrary: message) simp_all

lemma commit_loop_header:
  "commit_loop lines parents message False =
     Inr (parents @ map parent_field
                      (filter (prefix (lit ''parent '')) (takeWhile (\<lambda>l. l \<noteq> []) lines)),
          message @ concat (map (\<lambda>l. l @ [nl]) (tl (dropWhile (\<lambda>l. l \<noteq> []) lines))))"
proof (induction lines arbitrary: parents)
  case Nil
  then show ?case by simp
next
  case (Cons line lines)
  show ?case
  proof (cases "prefix (lit ''parent '') line")
    case True
    then have "line \<noteq> []" by (auto simp: lit_parent)
    with True Cons show ?thesis
      by (simp add: second_field_parent)
  next
    case False
    with Cons show ?thesis
      by (simp add: commit_loop_message)
  qed
qed

lemma parse_commit_eq:
  "parse_commit text = Inr (header_parents text, strip (message_text text))"
  by (simp add: parse_commit_def commit_loop_header header_parents_def header_lines_def
      message_text_def message_lines_def)

lemma get_commit_data_eq:
  "read_git_object lib fs repo_path commit_hash = Inr text \<Longrightarrow>
   get_commit_data lib fs repo_path commit_hash =
     Inr (header_parents text, strip (message_text text))"
  by (simp add: get_commit_data_def parse_commit_eq)

lemma split_acc_not_Nil: "split_acc sep cur s \<noteq> []"
  by (induction s arbitrary: cur) auto

lemma no_separator_lines:
  assumes "[] \<notin> set (butlast (split_str nl commit_text))"
  shows "filter (prefix (lit ''parent '')) (header_lines commit_text) =
           filter (prefix (lit ''parent '')) (split_str nl commit_text)"
    and "message_text commit_text = []"
proof -
  let ?ls = "split_str nl commit_text"
  let ?bs = "butlast ?ls"
  have ne: "?ls \<noteq> []"
    by (simp add: split_str_def split_acc_not_Nil)
  then have ls: "?ls = ?bs @ [last ?ls]"
    by simp
  from assms have all: "\<And>l. l \<in> set ?bs \<Longrightarrow> l \<noteq> []"
    by auto
  have tw: "takeWhile (\<lambda>l. l \<noteq> []) ?ls = ?bs @ takeWhile (\<lambda>l. l \<noteq> []) [last ?ls]"
    by (subst ls) (simp only: takeWhile_append2 [OF all])
  have dw: "dropWhile (\<lambda>l. l \<noteq> []) ?ls = dropWhile (\<lambda>l. l \<noteq> []) [last ?ls]"
    by (subst ls) (simp only: dropWhile_append2 [OF all])
  have np: "\<not> prefix (lit ''parent '') []"
    by (simp add: lit_def)
  have "filter (prefix (lit ''parent '')) (takeWhile (\<lambda>l. l \<noteq> []) ?ls) =
      filter (prefix (lit ''parent '')) (?bs @ [last ?ls])"
    unfolding tw using np by (cases "last ?ls = []") simp_all
  with ls show "filter (prefix (lit ''parent '')) (header_lines commit_text) =
      filter (prefix (lit ''parent '')) ?ls"
    by (simp add: header_lines_def)
  have "tl (dropWhile (\<lambda>l. l \<noteq> []) ?ls) = []"
    unfolding dw by simp
  then show "message_text commit_text = []"
    by (simp add: message_text_def message_lines_def)
qed

lemma strip_Nil: "strip [] = []"
  by (simp add: strip_def rstrip_def lstrip_def)

section \<open>The stand-in codec and the test repository\<close>

lemma ascii_roundtrip:
  "list_all (\<lambda>c. c < 128) s \<Longrightarrow> ascii_decode (ascii_encode s) = Some s"
  by (induction s) (simp_all add: ascii_decode_def ascii_encode_def unat_of_nat split: if_splits)

lemma read_stored:
  assumes "fs (object_file repo_path object_hash) = Some (File (ascii_encode text))"
    and "list_all (\<lambda>c. c < 128) text"
  shows "read_git_object stored_lib fs repo_path object_hash = Inr text"
  using assms by (simp add: read_git_object_def stored_lib_def ascii_roundtrip)

lemma object_file_derived_path:
  assumes "repo_path \<noteq> []" and "last repo_path \<noteq> slash"
    and "object_hash \<noteq> []" and "slash \<notin> set object_hash"
  shows "object_file repo_path object_hash = derived_path repo_path object_hash"
proof -
  have git: "\<not> prefix [slash] (lit ''.git'')" "\<not> prefix [slash] (lit ''objects'')"
    "last (lit ''.git'') \<noteq> slash" "last (lit ''objects'') \<noteq> slash"
    "lit ''/.git/objects/'' = [slash] @ lit ''.git'' @ [slash] @ lit ''objects'' @ [slash]"
    by (simp_all add: lit_def slash_def)
  from assms(3,4) have t: "take 2 object_hash \<noteq> []" "\<not> prefix [slash] (take 2 object_hash)"
    by (cases object_hash; auto)+
  from t(1) assms(4) have tl: "last (take 2 object_hash) \<noteq> slash"
    by (metis in_set_takeD last_in_set)
  from assms(4) have d: "\<not> prefix [slash] (drop 2 object_hash)"
    by (metis in_set_dropD list.set_intros(1) prefix_def append_Cons)
  have n: "lit ''.git'' \<noteq> []" "lit ''objects'' \<noteq> []"
    by (simp_all add: lit_def)
  show ?thesis
    using assms(1,2) t tl d n git(1-4)
    by (simp add: object_file_def object_dir_def os_path_join_def join2_def derived_path_def git(5))
qed

lemma repo_dir_ok: "test_repo_dir \<noteq> []" "last test_repo_dir \<noteq> slash"
  by (simp_all add: test_repo_dir_def lit_def slash_def)

lemma hashes_ok:
  "test_commit_hash \<noteq> []" "slash \<notin> set test_commit_hash"
  "test_parent_hash \<noteq> []" "slash \<notin> set test_parent_hash"
  "test_commit_hash \<noteq> test_parent_hash"
  by (simp_all add: test_commit_hash_def test_parent_hash_def lit_def slash_def)

lemma test_paths:
  "object_file test_repo_dir test_commit_hash = derived_path test_repo_dir test_commit_hash"
  "object_file test_repo_dir test_parent_hash = derived_path test_repo_dir test_parent_hash"
  "derived_path test_repo_dir test_parent_hash \<noteq> derived_path test_repo_dir test_commit_hash"
  by (simp_all add: object_file_derived_path repo_dir_ok hashes_ok)
     (simp add: derived_path_def test_commit_hash_def test_parent_hash_def lit_def)

lemma test_texts_ascii:
  "list_all (\<lambda>c. c < 128) test_commit_data" "list_all (\<lambda>c. c < 128) test_parent_commit_data"
  by (simp_all add: test_commit_data_def test_parent_commit_data_def test_parent_hash_def lit_def nl_def)

lemma test_read:
  "read_git_object stored_lib test_fs test_repo_dir test_commit_hash = Inr test_commit_data"
  "read_git_object stored_lib test_fs test_repo_dir test_parent_hash = Inr test_parent_commit_data"
  by (rule read_stored; simp add: test_fs_def test_paths test_texts_ascii)+

lemma test_get_commit_data:
  "get_commit_data stored_lib test_fs test_repo_dir test_commit_hash =
     Inr ([test_parent_hash], lit ''Initial commit'')"
  "get_commit_data stored_lib test_fs test_repo_dir test_parent_hash = Inr ([], lit ''Parent commit'')"
  by (simp_all add: get_commit_data_def test_read)
     (simp_all add: parse_commit_def split_str_def test_commit_data_def test_parent_commit_data_def
       test_parent_hash_def lit_def nl_def sp_def second_field_def strip_def lstrip_def rstrip_def
       is_space_def)

section \<open>Properties of get_commit_data\<close>

text \<open>
  C4, as amended. For a commit text with an empty line, the message that
  \<open>get_commit_data\<close> returns is the concatenation of the lines after the first empty
  line, each followed by a newline, with the whitespace at both ends removed
  (\<open>str.strip()\<close>): leading whitespace of the message is removed as well as trailing.
\<close>

theorem get_commit_data_message:
  assumes "read_git_object lib fs repo_path commit_hash = Inr commit_text"
    and "[] \<in> set (split_str nl commit_text)"
  shows "get_commit_data lib fs repo_path commit_hash =
           Inr (header_parents commit_text, strip (message_text commit_text))"
  using assms(1) by (rule get_commit_data_eq)

theorem get_commit_data_message_witness:
  "read_git_object stored_lib test_fs test_repo_dir test_commit_hash = Inr test_commit_data \<and>
   [] \<in> set (split_str nl test_commit_data) \<and>
   get_commit_data stored_lib test_fs test_repo_dir test_commit_hash =
     Inr (header_parents test_commit_data, strip (message_text test_commit_data)) \<and>
   strip (message_text test_commit_data) = lit ''Initial commit''"
proof -
  have r: "read_git_object stored_lib test_fs test_repo_dir test_commit_hash = Inr test_commit_data"
    by (rule test_read)
  have e: "[] \<in> set (split_str nl test_commit_data)"
    by (simp add: split_str_def test_commit_data_def test_parent_hash_def lit_def nl_def)
  from get_commit_data_message [OF r e] test_get_commit_data(1) r e show ?thesis
    by simp
qed

text \<open>
  The claim as the specification states it, with only trailing whitespace removed, fails
  on the text \<open>"\n x"\<close>: the code returns \<open>"x"\<close>, the claim asks for \<open>" x"\<close>.
\<close>

theorem get_commit_data_message_counterexample:
  "read_git_object stored_lib
     [object_file test_repo_dir test_commit_hash \<mapsto> File (ascii_encode ([nl] @ lit '' x''))]
     test_repo_dir test_commit_hash = Inr ([nl] @ lit '' x'') \<and>
   [] \<in> set (split_str nl ([nl] @ lit '' x'')) \<and>
   get_commit_data stored_lib
     [object_file test_repo_dir test_commit_hash \<mapsto> File (ascii_encode ([nl] @ lit '' x''))]
     test_repo_dir test_commit_hash = Inr ([], lit ''x'') \<and>
   rstrip (message_text ([nl] @ lit '' x'')) = lit '' x'' \<and>
   lit ''x'' \<noteq> lit '' x''"
proof -
  have r: "read_git_object stored_lib
     [object_file test_repo_dir test_commit_hash \<mapsto> File (ascii_encode ([nl] @ lit '' x''))]
     test_repo_dir test_commit_hash = Inr ([nl] @ lit '' x'')"
    by (rule read_stored) (simp_all add: lit_def nl_def)
  show ?thesis
    unfolding get_commit_data_def r
    by (simp add: parse_commit_def split_str_def message_text_def message_lines_def
        lit_def nl_def sp_def strip_def lstrip_def rstrip_def is_space_def)
qed

text \<open>
  C5. A commit text in which no line is empty is not an error: \<open>get_commit_data\<close>
  returns the parents of its \<open>parent\<close> lines and the empty message. The empty piece that
  \<open>split("\n")\<close> yields after a final newline does not count as a line, so texts that end
  in a newline are covered, and so is the empty text.
\<close>

theorem get_commit_data_no_separator:
  assumes "read_git_object lib fs repo_path commit_hash = Inr commit_text"
    and "[] \<notin> set (butlast (split_str nl commit_text))"
  shows "get_commit_data lib fs repo_path commit_hash =
           Inr (map parent_field (filter (prefix (lit ''parent '')) (split_str nl commit_text)), [])"
  using get_commit_data_eq [OF assms(1)] no_separator_lines [OF assms(2)]
  by (simp add: header_parents_def strip_Nil)

theorem get_commit_data_no_separator_witness:
  "read_git_object stored_lib
     [object_file test_repo_dir test_commit_hash \<mapsto>
        File (ascii_encode (lit ''tree ab'' @ [nl] @ lit ''parent cd ef'' @ [nl]))]
     test_repo_dir test_commit_hash = Inr (lit ''tree ab'' @ [nl] @ lit ''parent cd ef'' @ [nl]) \<and>
   split_str nl (lit ''tree ab'' @ [nl] @ lit ''parent cd ef'' @ [nl]) =
     [lit ''tree ab'', lit ''parent cd ef'', []] \<and>
   [] \<notin> set (butlast (split_str nl (lit ''tree ab'' @ [nl] @ lit ''parent cd ef'' @ [nl]))) \<and>
   get_commit_data stored_lib
     [object_file test_repo_dir test_commit_hash \<mapsto>
        File (ascii_encode (lit ''tree ab'' @ [nl] @ lit ''parent cd ef'' @ [nl]))]
     test_repo_dir test_commit_hash = Inr ([lit ''cd''], [])"
proof -
  have r: "read_git_object stored_lib
     [object_file test_repo_dir test_commit_hash \<mapsto>
        File (ascii_encode (lit ''tree ab'' @ [nl] @ lit ''parent cd ef'' @ [nl]))]
     test_repo_dir test_commit_hash = Inr (lit ''tree ab'' @ [nl] @ lit ''parent cd ef'' @ [nl])"
    by (rule read_stored) (simp_all add: lit_def nl_def)
  have s: "split_str nl (lit ''tree ab'' @ [nl] @ lit ''parent cd ef'' @ [nl]) =
      [lit ''tree ab'', lit ''parent cd ef'', []]"
    by (simp add: split_str_def lit_def nl_def)
  have e: "[] \<notin> set (butlast (split_str nl (lit ''tree ab'' @ [nl] @ lit ''parent cd ef'' @ [nl])))"
    unfolding s by (simp add: lit_def)
  from get_commit_data_no_separator [OF r e] r s e show ?thesis
    by (simp add: lit_def parent_field_def sp_def)
qed

text \<open>
  C10. The header parsing never raises: whatever text \<open>read_git_object\<close> returns,
  \<open>get_commit_data\<close> returns a pair, and \<open>IndexError\<close> is not among its results. A header
  line that is exactly \<open>parent \<close> contributes the empty string as a parent identifier.
\<close>

theorem get_commit_data_total:
  "(\<exists>parents message. parse_commit commit_text = Inr (parents, message)) \<and>
   (read_git_object lib fs repo_path commit_hash = Inr commit_text \<longrightarrow>
      (\<exists>parents message. get_commit_data lib fs repo_path commit_hash = Inr (parents, message))) \<and>
   get_commit_data lib fs repo_path commit_hash \<noteq> Inl IndexError \<and>
   second_field (lit ''parent '') = Inr [] \<and>
   (lit ''parent '' \<in> set (header_lines commit_text) \<longrightarrow>
      (\<exists>parents message. parse_commit commit_text = Inr (parents, message) \<and> [] \<in> set parents))"
proof -
  have p: "parse_commit commit_text = Inr (header_parents commit_text, strip (message_text commit_text))"
    by (rule parse_commit_eq)
  have f: "parent_field (lit ''parent '') = []"
    by (simp add: parent_field_def lit_def)
  have s: "second_field (lit ''parent '') = Inr []"
    using second_field_parent [of "lit ''parent ''"] f by simp
  have i: "get_commit_data lib fs repo_path commit_hash \<noteq> Inl IndexError"
    by (auto simp: get_commit_data_def read_git_object_def parse_commit_eq
        split: option.splits node.splits sum.splits)
  have h: "[] \<in> set (header_parents commit_text)" if "lit ''parent '' \<in> set (header_lines commit_text)"
  proof -
    from that have "lit ''parent '' \<in> set (filter (prefix (lit ''parent '')) (header_lines commit_text))"
      by simp
    then have "parent_field (lit ''parent '') \<in> set (header_parents commit_text)"
      unfolding header_parents_def by (metis image_eqI set_map)
    with f show ?thesis by simp
  qed
  from p s i h show ?thesis
    by (simp add: get_commit_data_def)
qed

theorem get_commit_data_total_witness:
  "read_git_object stored_lib
     [object_file test_repo_dir test_commit_hash \<mapsto>
        File (ascii_encode (lit ''tree ab'' @ [nl] @ lit ''parent '' @ [nl, nl] @ lit ''msg''))]
     test_repo_dir test_commit_hash = Inr (lit ''tree ab'' @ [nl] @ lit ''parent '' @ [nl, nl] @ lit ''msg'') \<and>
   lit ''parent '' \<in>
     set (header_lines (lit ''tree ab'' @ [nl] @ lit ''parent '' @ [nl, nl] @ lit ''msg'')) \<and>
   (\<exists>parents message.
      get_commit_data stored_lib
        [object_file test_repo_dir test_commit_hash \<mapsto>
           File (ascii_encode (lit ''tree ab'' @ [nl] @ lit ''parent '' @ [nl, nl] @ lit ''msg''))]
        test_repo_dir test_commit_hash = Inr (parents, message)) \<and>
   (\<exists>parents message.
      parse_commit (lit ''tree ab'' @ [nl] @ lit ''parent '' @ [nl, nl] @ lit ''msg'') =
        Inr (parents, message) \<and> [] \<in> set parents)"
proof -
  let ?text = "lit ''tree ab'' @ [nl] @ lit ''parent '' @ [nl, nl] @ lit ''msg''"
  let ?fs = "[object_file test_repo_dir test_commit_hash \<mapsto> File (ascii_encode ?text)]"
  have r: "read_git_object stored_lib ?fs test_repo_dir test_commit_hash = Inr ?text"
    by (rule read_stored) (simp_all add: lit_def nl_def)
  have h: "lit ''parent '' \<in> set (header_lines ?text)"
    by (simp add: header_lines_def split_str_def lit_def nl_def)
  show ?thesis
    using get_commit_data_total
      [where commit_text = ?text and lib = stored_lib and fs = ?fs and repo_path = test_repo_dir
         and commit_hash = test_commit_hash] r h
    by blast
qed

section \<open>Properties of read_git_object\<close>

text \<open>
  C6. \<open>read_git_object\<close> fails with \<open>FileNotFoundError\<close> (the specification's
  \<open>ObjectNotFound\<close>) exactly when nothing exists at the path it derives, and then with
  no other error; when the file there holds bytes that decompress and decode, it returns
  the decoded text. For a non-empty root that does not end in a slash and a non-empty
  identifier without a slash, the path it derives is
  \<open><root>/.git/objects/<first two characters>/<remaining characters>\<close>.
\<close>

theorem read_git_object_not_found:
  "(read_git_object lib fs repo_path object_hash = Inl FileNotFoundError \<longleftrightarrow>
      fs (object_file repo_path object_hash) = None) \<and>
   (fs (object_file repo_path object_hash) = None \<longrightarrow>
      (\<forall>e. read_git_object lib fs repo_path object_hash = Inl e \<longrightarrow> e = FileNotFoundError)) \<and>
   (fs (object_file repo_path object_hash) = Some (File compressed_data) \<longrightarrow>
    zlib_decompress lib compressed_data = Some decompressed_data \<longrightarrow>
    utf8_decode lib decompressed_data = Some commit_text \<longrightarrow>
      read_git_object lib fs repo_path object_hash = Inr commit_text) \<and>
   (repo_path \<noteq> [] \<and> last repo_path \<noteq> slash \<and> object_hash \<noteq> [] \<and> slash \<notin> set object_hash \<longrightarrow>
      object_file repo_path object_hash = derived_path repo_path object_hash)"
  by (auto simp: read_git_object_def object_file_derived_path
      split: option.splits node.splits)

theorem read_git_object_not_found_witness:
  "read_git_object stored_lib test_fs test_repo_dir (lit ''0000'') = Inl FileNotFoundError \<and>
   test_fs (object_file test_repo_dir (lit ''0000'')) = None \<and>
   test_fs (object_file test_repo_dir test_commit_hash) = Some (File (ascii_encode test_commit_data)) \<and>
   zlib_decompress stored_lib (ascii_encode test_commit_data) = Some (ascii_encode test_commit_data) \<and>
   utf8_decode stored_lib (ascii_encode test_commit_data) = Some test_commit_data \<and>
   read_git_object stored_lib test_fs test_repo_dir test_commit_hash = Inr test_commit_data \<and>
   object_file test_repo_dir test_commit_hash = derived_path test_repo_dir test_commit_hash"
proof -
  have n: "test_fs (object_file test_repo_dir (lit ''0000'')) = None"
    by (simp add: test_fs_def object_file_def object_dir_def os_path_join_def join2_def
        derived_path_def test_repo_dir_def test_commit_hash_def test_parent_hash_def
        lit_def slash_def)
  have f: "test_fs (object_file test_repo_dir test_commit_hash) =
      Some (File (ascii_encode test_commit_data))"
    by (simp add: test_fs_def test_paths)
  have z: "zlib_decompress stored_lib (ascii_encode test_commit_data) =
      Some (ascii_encode test_commit_data)"
    by (simp add: stored_lib_def)
  have u: "utf8_decode stored_lib (ascii_encode test_commit_data) = Some test_commit_data"
    by (simp add: stored_lib_def ascii_roundtrip test_texts_ascii)
  note t1 = read_git_object_not_found
    [where lib = stored_lib and fs = test_fs and repo_path = test_repo_dir
       and object_hash = "lit ''0000''"]
  note t2 = read_git_object_not_found
    [where lib = stored_lib and fs = test_fs and repo_path = test_repo_dir
       and object_hash = test_commit_hash and compressed_data = "ascii_encode test_commit_data"
       and decompressed_data = "ascii_encode test_commit_data" and commit_text = test_commit_data]
  from t1 n have "read_git_object stored_lib test_fs test_repo_dir (lit ''0000'') =
      Inl FileNotFoundError"
    by blast
  moreover from t2 f z u have
    "read_git_object stored_lib test_fs test_repo_dir test_commit_hash = Inr test_commit_data"
    by blast
  moreover from t2 repo_dir_ok hashes_ok have
    "object_file test_repo_dir test_commit_hash = derived_path test_repo_dir test_commit_hash"
    by blast
  ultimately show ?thesis
    using n f z u by blast
qed

text \<open>
  C7. Round trip. Compress the encoded text, write the bytes at the path of an identifier,
  and \<open>read_git_object\<close> with that identifier returns the text. \<open>compress\<close> and \<open>encode\<close>
  stand for \<open>zlib.compress\<close> and \<open>str.encode("utf-8")\<close>; that \<open>zlib.decompress\<close> and
  \<open>bytes.decode("utf-8")\<close> invert them on this text is the contract of the library. This
  holds for the path the code derives, whatever the root and the identifier, and so for
  the path the specification describes, for a root and an identifier as in C6.
\<close>

theorem read_git_object_roundtrip:
  assumes "zlib_decompress lib (compress (encode commit_text)) = Some (encode commit_text)"
    and "utf8_decode lib (encode commit_text) = Some commit_text"
  shows "read_git_object lib
           (fs(object_file repo_path object_hash \<mapsto> File (compress (encode commit_text))))
           repo_path object_hash = Inr commit_text \<and>
         (repo_path \<noteq> [] \<and> last repo_path \<noteq> slash \<and>
          object_hash \<noteq> [] \<and> slash \<notin> set object_hash \<longrightarrow>
            read_git_object lib
              (fs(derived_path repo_path object_hash \<mapsto> File (compress (encode commit_text))))
              repo_path object_hash = Inr commit_text)"
  using assms by (simp add: read_git_object_def object_file_derived_path)

theorem read_git_object_roundtrip_witness:
  "zlib_decompress stored_lib (id (ascii_encode test_commit_data)) =
     Some (ascii_encode test_commit_data) \<and>
   utf8_decode stored_lib (ascii_encode test_commit_data) = Some test_commit_data \<and>
   test_repo_dir \<noteq> [] \<and> last test_repo_dir \<noteq> slash \<and>
   test_commit_hash \<noteq> [] \<and> slash \<notin> set test_commit_hash \<and>
   read_git_object stored_lib
     (Map.empty(derived_path test_repo_dir test_commit_hash \<mapsto>
        File (id (ascii_encode test_commit_data))))
     test_repo_dir test_commit_hash = Inr test_commit_data"
proof -
  have z: "zlib_decompress stored_lib (id (ascii_encode test_commit_data)) =
      Some (ascii_encode test_commit_data)"
    by (simp add: stored_lib_def)
  have u: "utf8_decode stored_lib (ascii_encode test_commit_data) = Some test_commit_data"
    by (simp add: stored_lib_def ascii_roundtrip test_texts_ascii)
  from read_git_object_roundtrip
    [of stored_lib id ascii_encode test_commit_data Map.empty test_repo_dir test_commit_hash,
      OF z u]
  show ?thesis
    using z u repo_dir_ok hashes_ok(1,2) by blast
qed

section \<open>The work-stack loop\<close>

lemma update_absent:
  "k \<notin> fst ` set al \<Longrightarrow> AList.update k v al = al @ [(k, v)]"
  by (induction al) auto

text \<open>
  The identifiers that can ever be pushed are the parents named in some object of the
  store; over a finite store they are finitely many.
\<close>

lemma finite_store_parents:
  assumes "finite (dom fs)"
  shows "finite {p. \<exists>h ps m. get_commit_data lib fs repo_path h = Inr (ps, m) \<and> p \<in> set ps}"
proof -
  define G where "G = (\<lambda>n. case n of
      Dir \<Rightarrow> {}
    | File bs \<Rightarrow> (case zlib_decompress lib bs of
        None \<Rightarrow> {}
      | Some raw \<Rightarrow> (case utf8_decode lib raw of
          None \<Rightarrow> {}
        | Some t \<Rightarrow> set (header_parents t))))"
  have "finite (G n)" for n
    by (simp add: G_def split: node.split option.split)
  moreover from assms have "finite (ran fs)"
    by (rule finite_ran)
  ultimately have fin: "finite (\<Union>n \<in> ran fs. G n)"
    by blast
  have "{p. \<exists>h ps m. get_commit_data lib fs repo_path h = Inr (ps, m) \<and> p \<in> set ps}
      \<subseteq> (\<Union>n \<in> ran fs. G n)"
  proof clarify
    fix p h ps m
    assume g: "get_commit_data lib fs repo_path h = Inr (ps, m)" and p: "p \<in> set ps"
    from g obtain bs raw t where
      f: "fs (object_file repo_path h) = Some (File bs)"
      and z: "zlib_decompress lib bs = Some raw"
      and u: "utf8_decode lib raw = Some t"
      and e: "parse_commit t = Inr (ps, m)"
      by (auto simp: get_commit_data_def read_git_object_def
          split: option.splits node.splits sum.splits)
    from e have "ps = header_parents t"
      by (simp add: parse_commit_eq)
    with p z u have "p \<in> G (File bs)"
      by (simp add: G_def)
    moreover from f have "File bs \<in> ran fs"
      by (rule ranI)
    ultimately show "p \<in> (\<Union>n \<in> ran fs. G n)"
      by blast
  qed
  with fin show ?thesis
    by (rule rev_finite_subset)
qed

lemma graph_loop_terminates:
  assumes "finite (dom fs)"
  shows "\<exists>r. graph_loop lib fs repo_path commit_graph stack calls = Some r"
proof -
  define P where
    "P = {p. \<exists>h ps m. get_commit_data lib fs repo_path h = Inr (ps, m) \<and> p \<in> set ps}"
  have finP: "finite P"
    unfolding P_def using assms by (rule finite_store_parents)
  define W where "W = (\<lambda>(g :: commit_graph) (st :: str list). (P \<union> set st) - fst ` set g)"
  have finW: "finite (W g st)" for g st
    by (simp add: W_def finP)
  have "wf (less_than <*lex*> less_than)"
    by (rule wf_lex_prod [OF wf_less_than wf_less_than])
  then show ?thesis
  proof (induction "(card (W commit_graph stack), length stack)"
      arbitrary: commit_graph stack calls rule: wf_induct_rule)
    case less
    show ?case
    proof (cases "stack = []")
      case True
      then show ?thesis
        by (subst graph_loop.simps) simp
    next
      case False
      let ?cur = "last stack" and ?rest = "butlast stack"
      from False have cur_in: "?cur \<in> set stack"
        by simp
      have rest_sub: "set ?rest \<subseteq> set stack"
        by (auto dest: in_set_butlastD)
      from False have len: "length ?rest < length stack"
        by simp
      show ?thesis
      proof (cases "?cur \<in> fst ` set commit_graph")
        case True
        from rest_sub have "W commit_graph ?rest \<subseteq> W commit_graph stack"
          by (auto simp: W_def)
        then have "card (W commit_graph ?rest) \<le> card (W commit_graph stack)"
          by (rule card_mono [OF finW])
        with len have "((card (W commit_graph ?rest), length ?rest),
            (card (W commit_graph stack), length stack)) \<in> less_than <*lex*> less_than"
          by auto
        from less(1) [OF this] obtain r where
          "graph_loop lib fs repo_path commit_graph ?rest calls = Some r"
          by blast
        with False True show ?thesis
          by (subst graph_loop.simps) simp
      next
        case absent: False
        show ?thesis
        proof (cases "get_commit_data lib fs repo_path ?cur")
          case (Inl e)
          with False absent show ?thesis
            by (subst graph_loop.simps) simp
        next
          case (Inr pm)
          obtain ps m where pm: "pm = (ps, m)"
            by (cases pm)
          from Inr pm have ps_sub: "set ps \<subseteq> P"
            by (auto simp: P_def)
          let ?g = "AList.update ?cur ps commit_graph"
          have keys: "fst ` set ?g = insert ?cur (fst ` set commit_graph)"
            by (simp add: dom_update)
          from ps_sub rest_sub have "W ?g (?rest @ ps) \<subseteq> W commit_graph stack - {?cur}"
            by (auto simp: W_def keys)
          moreover from cur_in absent have "?cur \<in> W commit_graph stack"
            by (simp add: W_def)
          ultimately have "W ?g (?rest @ ps) \<subset> W commit_graph stack"
            by blast
          then have "card (W ?g (?rest @ ps)) < card (W commit_graph stack)"
            by (rule psubset_card_mono [OF finW])
          then have "((card (W ?g (?rest @ ps)), length (?rest @ ps)),
              (card (W commit_graph stack), length stack)) \<in> less_than <*lex*> less_than"
            by simp
          from less(1) [OF this] obtain r where
            "graph_loop lib fs repo_path ?g (?rest @ ps) (calls @ [?cur]) = Some r"
            by blast
          with False absent Inr pm show ?thesis
            by (subst graph_loop.simps) simp
        qed
      qed
    qed
  qed
qed

lemma short_get_commit_data:
  "get_commit_data stored_lib diamond_fs test_repo_dir (lit ''aa01'') =
     Inr ([lit ''bb02'', lit ''cc03''], lit ''merge'')"
  "get_commit_data stored_lib diamond_fs test_repo_dir (lit ''bb02'') =
     Inr ([lit ''dd04''], lit ''left'')"
  "get_commit_data stored_lib diamond_fs test_repo_dir (lit ''cc03'') =
     Inr ([lit ''dd04''], lit ''right'')"
  "get_commit_data stored_lib diamond_fs test_repo_dir (lit ''dd04'') = Inr ([], lit ''root'')"
  "get_commit_data stored_lib cycle_fs test_repo_dir (lit ''aa01'') =
     Inr ([lit ''bb02''], lit ''one'')"
  "get_commit_data stored_lib cycle_fs test_repo_dir (lit ''bb02'') =
     Inr ([lit ''aa01''], lit ''two'')"
  by (simp_all add: get_commit_data_def read_git_object_def diamond_fs_def cycle_fs_def
      object_file_def object_dir_def os_path_join_def join2_def derived_path_def
      test_repo_dir_def stored_lib_def ascii_encode_def ascii_decode_def
      parse_commit_def split_str_def second_field_def strip_def lstrip_def rstrip_def
      is_space_def lit_def nl_def sp_def slash_def)

lemma graph_loop_calls:
  assumes "graph_loop lib fs repo_path commit_graph stack calls = Some res"
  shows "map fst commit_graph = calls \<longrightarrow> distinct calls \<longrightarrow>
         distinct (snd res) \<and> (\<forall>g. fst res = Inr g \<longrightarrow> map fst g = snd res)"
  using assms
proof (induction lib fs repo_path commit_graph stack calls res
    rule: graph_loop.raw_induct [rotated 1, consumes 1, case_names step])
  case (step loop lib fs repo_path commit_graph stack calls res)
  show ?case
  proof (intro impI)
    assume k: "map fst commit_graph = calls" and d: "distinct calls"
    from k have keys: "fst ` set commit_graph = set calls"
      by (metis set_map)
    show "distinct (snd res) \<and> (\<forall>g. fst res = Inr g \<longrightarrow> map fst g = snd res)"
    proof (cases "stack = []")
      case True
      with step(2) k d show ?thesis by auto
    next
      case False
      show ?thesis
      proof (cases "last stack \<in> set calls")
        case True
        with False step(2) keys have
          "loop lib fs repo_path commit_graph (butlast stack) calls = Some res"
          by (simp add: Let_def)
        from step(1) [OF this] k d show ?thesis by simp
      next
        case absent: False
        show ?thesis
        proof (cases "get_commit_data lib fs repo_path (last stack)")
          case (Inl e)
          with False absent step(2) keys d show ?thesis by (auto simp: Let_def)
        next
          case (Inr pm)
          obtain ps m where pm: "pm = (ps, m)" by (cases pm)
          from False absent Inr pm step(2) keys have
            "loop lib fs repo_path (AList.update (last stack) ps commit_graph)
               (butlast stack @ ps) (calls @ [last stack]) = Some res"
            by (simp add: Let_def)
          from step(1) [OF this] absent keys k d show ?thesis
            by (simp add: update_absent)
        qed
      qed
    qed
  qed
qed

lemma distinct_count_list: "distinct xs \<Longrightarrow> count_list xs x \<le> 1"
  by (induction xs) (auto simp: count_list_0_iff)

section \<open>Properties of get_commit_graph\<close>

text \<open>
  C1. In a repository where commit \<open>a\<close> decodes to the single parent \<open>b\<close> and commit \<open>b\<close>
  decodes to no parents, \<open>get_commit_graph\<close> started at \<open>a\<close> returns the mapping
  \<open>{a: [b], b: []}\<close>: these two keys, in this order of insertion, and no other.
\<close>

theorem get_commit_graph_two_commits:
  assumes "get_commit_data lib fs repo_path a = Inr ([b], message_a)"
    and "get_commit_data lib fs repo_path b = Inr ([], message_b)"
  shows "get_commit_graph lib fs repo_path a = Some (Inr [(a, [b]), (b, [])])"
proof -
  from assms have ab: "b \<noteq> a"
    by auto
  have "graph_loop lib fs repo_path [(a, [b]), (b, [])] [] [a, b] =
      Some (Inr [(a, [b]), (b, [])], [a, b])"
    by (subst graph_loop.simps) simp
  with assms(2) ab have "graph_loop lib fs repo_path [(a, [b])] [b] [a] =
      Some (Inr [(a, [b]), (b, [])], [a, b])"
    by (subst graph_loop.simps) simp
  with assms(1) have "graph_loop lib fs repo_path [] [a] [] =
      Some (Inr [(a, [b]), (b, [])], [a, b])"
    by (subst graph_loop.simps) simp
  then show ?thesis
    by (simp add: get_commit_graph_def get_commit_graph_calls_def)
qed

theorem get_commit_graph_two_commits_witness:
  "get_commit_data stored_lib test_fs test_repo_dir test_commit_hash =
     Inr ([test_parent_hash], lit ''Initial commit'') \<and>
   get_commit_data stored_lib test_fs test_repo_dir test_parent_hash =
     Inr ([], lit ''Parent commit'') \<and>
   get_commit_graph stored_lib test_fs test_repo_dir test_commit_hash =
     Some (Inr [(test_commit_hash, [test_parent_hash]), (test_parent_hash, [])])"
  using get_commit_graph_two_commits [OF test_get_commit_data] test_get_commit_data
  by simp

text \<open>
  C2. Over a finite object store a run of \<open>get_commit_graph\<close> ends, and in the list of
  identifiers it handed to \<open>get_commit_data\<close> (and so to \<open>read_git_object\<close>) no identifier
  occurs more than once, whether the run returns a graph or ends in an error. When it
  returns a graph, the identifiers decoded are exactly its keys, in order of insertion.
\<close>

theorem get_commit_graph_decodes_once:
  assumes "finite (dom fs)"
  shows "\<exists>result calls.
           get_commit_graph_calls lib fs repo_path starting_commit_hash = Some (result, calls) \<and>
           (\<forall>h. count_list calls h \<le> 1) \<and>
           (\<forall>g. result = Inr g \<longrightarrow> map fst g = calls)"
proof -
  from graph_loop_terminates [OF assms] obtain res where
    r: "graph_loop lib fs repo_path [] [starting_commit_hash] [] = Some res"
    by blast
  from graph_loop_calls [OF r] have
    d: "distinct (snd res)" and k: "\<forall>g. fst res = Inr g \<longrightarrow> map fst g = snd res"
    by simp_all
  from d have "\<forall>h. count_list (snd res) h \<le> 1"
    by (simp add: distinct_count_list del: One_nat_def)
  with r k have "get_commit_graph_calls lib fs repo_path starting_commit_hash =
      Some (fst res, snd res) \<and>
      (\<forall>h. count_list (snd res) h \<le> 1) \<and> (\<forall>g. fst res = Inr g \<longrightarrow> map fst g = snd res)"
    by (simp add: get_commit_graph_calls_def)
  then show ?thesis
    by blast
qed

theorem get_commit_graph_decodes_once_witness:
  "finite (dom diamond_fs) \<and>
   get_commit_graph_calls stored_lib diamond_fs test_repo_dir (lit ''aa01'') =
     Some (Inr [(lit ''aa01'', [lit ''bb02'', lit ''cc03'']), (lit ''cc03'', [lit ''dd04'']),
                (lit ''dd04'', []), (lit ''bb02'', [lit ''dd04''])],
           [lit ''aa01'', lit ''cc03'', lit ''dd04'', lit ''bb02'']) \<and>
   (\<exists>result calls.
      get_commit_graph_calls stored_lib diamond_fs test_repo_dir (lit ''aa01'') =
        Some (result, calls) \<and>
      (\<forall>h. count_list calls h \<le> 1) \<and>
      (\<forall>g. result = Inr g \<longrightarrow> map fst g = calls))"
proof -
  have f: "finite (dom diamond_fs)"
    by (simp add: diamond_fs_def)
  have ne: "lit ''aa01'' \<noteq> lit ''bb02''" "lit ''aa01'' \<noteq> lit ''cc03''"
    "lit ''aa01'' \<noteq> lit ''dd04''" "lit ''bb02'' \<noteq> lit ''cc03''"
    "lit ''bb02'' \<noteq> lit ''dd04''" "lit ''cc03'' \<noteq> lit ''dd04''"
    by (simp_all add: lit_def)
  have "get_commit_graph_calls stored_lib diamond_fs test_repo_dir (lit ''aa01'') =
     Some (Inr [(lit ''aa01'', [lit ''bb02'', lit ''cc03'']), (lit ''cc03'', [lit ''dd04'']),
                (lit ''dd04'', []), (lit ''bb02'', [lit ''dd04''])],
           [lit ''aa01'', lit ''cc03'', lit ''dd04'', lit ''bb02''])"
    unfolding get_commit_graph_calls_def
    apply (subst graph_loop.simps, simp add: short_get_commit_data ne ne [symmetric] Let_def)
    apply (subst graph_loop.simps, simp add: short_get_commit_data ne ne [symmetric] Let_def)
    apply (subst graph_loop.simps, simp add: short_get_commit_data ne ne [symmetric] Let_def)
    apply (subst graph_loop.simps, simp add: short_get_commit_data ne ne [symmetric] Let_def)
    apply (subst graph_loop.simps, simp add: short_get_commit_data ne ne [symmetric] Let_def)
    apply (subst graph_loop.simps, simp)
    done
  with f get_commit_graph_decodes_once [OF f, of stored_lib test_repo_dir "lit ''aa01''"]
  show ?thesis
    by blast
qed

text \<open>
  C3. Over every finite object store, whatever the parent links are (a diamond, a cycle,
  a missing object), the work-stack loop ends from every state, and so does
  \<open>get_commit_graph\<close>: with a graph whose keys are pairwise different, or with the error of
  the object it could not read.
\<close>

theorem get_commit_graph_terminates:
  assumes "finite (dom fs)"
  shows "(\<exists>r. graph_loop lib fs repo_path commit_graph stack calls = Some r) \<and>
         (\<exists>result. get_commit_graph lib fs repo_path starting_commit_hash = Some result \<and>
            (\<forall>g. result = Inr g \<longrightarrow> distinct (map fst g)))"
proof -
  from graph_loop_terminates [OF assms] obtain res where
    r: "graph_loop lib fs repo_path [] [starting_commit_hash] [] = Some res"
    by blast
  from graph_loop_calls [OF r] have "\<forall>g. fst res = Inr g \<longrightarrow> distinct (map fst g)"
    by simp
  with r have "\<exists>result. get_commit_graph lib fs repo_path starting_commit_hash = Some result \<and>
      (\<forall>g. result = Inr g \<longrightarrow> distinct (map fst g))"
    by (simp add: get_commit_graph_def get_commit_graph_calls_def)
  with graph_loop_terminates [OF assms] show ?thesis
    by blast
qed

theorem get_commit_graph_terminates_witness:
  "finite (dom cycle_fs) \<and>
   get_commit_graph stored_lib cycle_fs test_repo_dir (lit ''aa01'') =
     Some (Inr [(lit ''aa01'', [lit ''bb02'']), (lit ''bb02'', [lit ''aa01''])]) \<and>
   (\<exists>result. get_commit_graph stored_lib cycle_fs test_repo_dir (lit ''aa01'') = Some result \<and>
      (\<forall>g. result = Inr g \<longrightarrow> distinct (map fst g)))"
proof -
  have f: "finite (dom cycle_fs)"
    by (simp add: cycle_fs_def)
  have ne: "lit ''aa01'' \<noteq> lit ''bb02''"
    by (simp add: lit_def)
  have "get_commit_graph stored_lib cycle_fs test_repo_dir (lit ''aa01'') =
     Some (Inr [(lit ''aa01'', [lit ''bb02'']), (lit ''bb02'', [lit ''aa01''])])"
    unfolding get_commit_graph_def get_commit_graph_calls_def
    apply (subst graph_loop.simps, simp add: short_get_commit_data ne ne [symmetric] Let_def)
    apply (subst graph_loop.simps, simp add: short_get_commit_data ne ne [symmetric] Let_def)
    apply (subst graph_loop.simps, simp add: short_get_commit_data ne ne [symmetric] Let_def)
    apply (subst graph_loop.simps, simp)
    done
  with f get_commit_graph_terminates
    [OF f, of stored_lib test_repo_dir "[]" "[]" "[]" "lit ''aa01''"]
  show ?thesis
    by blast
qed

section \<open>The renderer in closed form\<close>

lemma concat_split_ws_acc: "concat (split_ws_acc cur s) = cur @ no_whitespace s"
  by (induction s arbitrary: cur) (simp_all add: no_whitespace_def)

lemma join_split_ws: "join_empty (split_ws s) = no_whitespace s"
  by (simp add: join_empty_def split_ws_def concat_split_ws_acc)

lemma decodableE:
  assumes "decodable lib fs repo_path h"
  obtains ps m where "get_commit_data lib fs repo_path h = Inr (ps, m)"
    and "label_of lib fs repo_path h = no_whitespace m"
  using assms
  by (auto simp: decodable_def label_of_def message_of_def split: sum.splits)

lemma not_decodableE:
  assumes "\<not> decodable lib fs repo_path h"
  obtains e where "get_commit_data lib fs repo_path h = Inl e"
  using assms by (auto simp: decodable_def split: sum.splits)

lemma render_parents_ok:
  assumes "list_all (decodable lib fs repo_path) parents"
  shows "render_parents lib fs repo_path commit (label_of lib fs repo_path commit) parents
           plantuml_code calls =
         (Inr (plantuml_code @ concat (map (edge_block lib fs repo_path commit) parents)),
          calls @ parents)"
  using assms
proof (induction parents arbitrary: plantuml_code calls)
  case Nil
  then show ?case by simp
next
  case (Cons parent parents)
  from Cons.prems have "decodable lib fs repo_path parent"
    by simp
  then obtain ps m where "get_commit_data lib fs repo_path parent = Inr (ps, m)"
    and "label_of lib fs repo_path parent = no_whitespace m"
    by (rule decodableE)
  moreover from Cons.prems have "list_all (decodable lib fs repo_path) parents"
    by simp
  ultimately show ?case
    by (simp add: Cons.IH join_split_ws edge_block_def participant_line_def edge_line_def)
qed

lemma render_parents_fail:
  assumes "\<not> list_all (decodable lib fs repo_path) parents"
  shows "\<exists>e calls'. render_parents lib fs repo_path commit commit_message parents
           plantuml_code calls = (Inl e, calls @ calls') \<and> prefix calls' parents"
  using assms
proof (induction parents arbitrary: plantuml_code calls)
  case Nil
  then show ?case by simp
next
  case (Cons parent parents)
  show ?case
  proof (cases "decodable lib fs repo_path parent")
    case False
    then obtain e where "get_commit_data lib fs repo_path parent = Inl e"
      by (rule not_decodableE)
    then have "render_parents lib fs repo_path commit commit_message (parent # parents)
        plantuml_code calls = (Inl e, calls @ [parent]) \<and> prefix [parent] (parent # parents)"
      by simp
    then show ?thesis by blast
  next
    case True
    then obtain ps m where g: "get_commit_data lib fs repo_path parent = Inr (ps, m)"
      by (rule decodableE)
    from True Cons.prems have "\<not> list_all (decodable lib fs repo_path) parents"
      by simp
    from Cons.IH [OF this] obtain e calls' where
      "render_parents lib fs repo_path commit commit_message parents
         (plantuml_code
            @ (lit ''participant '' @ join_empty (split_ws m) @ lit '' as '' @ parent @ [nl])
            @ (lit ''participant '' @ commit_message @ lit '' as '' @ commit @ [nl])
            @ ([dq] @ parent @ [dq] @ lit '' --> '' @ [dq] @ commit @ [dq] @ [nl]))
         (calls @ [parent]) = (Inl e, (calls @ [parent]) @ calls')"
      and "prefix calls' parents"
      by blast
    with g have "render_parents lib fs repo_path commit commit_message (parent # parents)
        plantuml_code calls = (Inl e, calls @ (parent # calls')) \<and>
        prefix (parent # calls') (parent # parents)"
      by simp
    then show ?thesis by blast
  qed
qed

lemma render_items_ok:
  assumes "all_decodable lib fs repo_path g"
  shows "render_items lib fs repo_path g plantuml_code calls =
         (Inr (plantuml_code @
               concat (map (\<lambda>(c, ps). concat (map (edge_block lib fs repo_path c) ps)) g)),
          calls @ render_calls g)"
  using assms
proof (induction g arbitrary: plantuml_code calls)
  case Nil
  then show ?case by (simp add: render_calls_def)
next
  case (Cons item g)
  obtain commit parents where item: "item = (commit, parents)"
    by (cases item)
  from Cons.prems item have c: "decodable lib fs repo_path commit"
    and ps: "list_all (decodable lib fs repo_path) parents"
    and rest: "all_decodable lib fs repo_path g"
    by (simp_all add: all_decodable_def)
  from c obtain ps' m where "get_commit_data lib fs repo_path commit = Inr (ps', m)"
    and "label_of lib fs repo_path commit = no_whitespace m"
    by (rule decodableE)
  then show ?case
    using render_parents_ok [OF ps, of commit plantuml_code "calls @ [commit]"]
      Cons.IH [OF rest]
    by (simp add: item join_split_ws render_calls_def)
qed

lemma render_items_fail:
  assumes "\<not> all_decodable lib fs repo_path g"
  shows "\<exists>e calls'. render_items lib fs repo_path g plantuml_code calls = (Inl e, calls @ calls') \<and>
           prefix calls' (render_calls g)"
  using assms
proof (induction g arbitrary: plantuml_code calls)
  case Nil
  then show ?case by (simp add: all_decodable_def)
next
  case (Cons item g)
  obtain commit parents where item: "item = (commit, parents)"
    by (cases item)
  have rc: "render_calls ((commit, parents) # g) = commit # parents @ render_calls g"
    by (simp add: render_calls_def)
  show ?case
  proof (cases "decodable lib fs repo_path commit")
    case False
    then obtain e where "get_commit_data lib fs repo_path commit = Inl e"
      by (rule not_decodableE)
    then have "render_items lib fs repo_path (item # g) plantuml_code calls =
        (Inl e, calls @ [commit]) \<and> prefix [commit] (render_calls (item # g))"
      by (simp add: item rc)
    then show ?thesis by blast
  next
    case True
    then obtain ps' m where g: "get_commit_data lib fs repo_path commit = Inr (ps', m)"
      and l: "label_of lib fs repo_path commit = no_whitespace m"
      by (rule decodableE)
    show ?thesis
    proof (cases "list_all (decodable lib fs repo_path) parents")
      case False
      from render_parents_fail [OF this] obtain e calls' where
        "render_parents lib fs repo_path commit (no_whitespace m) parents plantuml_code
           (calls @ [commit]) = (Inl e, (calls @ [commit]) @ calls')"
        and p: "prefix calls' parents"
        by blast
      moreover from p have "prefix calls' (parents @ render_calls g)"
        by (rule prefix_prefix)
      ultimately have "render_items lib fs repo_path (item # g) plantuml_code calls =
          (Inl e, calls @ (commit # calls')) \<and>
          prefix (commit # calls') (render_calls (item # g))"
        using g by (simp add: item rc join_split_ws)
      then show ?thesis by blast
    next
      case ps: True
      with True Cons.prems item have "\<not> all_decodable lib fs repo_path g"
        by (simp add: all_decodable_def)
      from Cons.IH [OF this] obtain e calls' where
        "render_items lib fs repo_path g
           (plantuml_code @ concat (map (edge_block lib fs repo_path commit) parents))
           ((calls @ [commit]) @ parents) = (Inl e, ((calls @ [commit]) @ parents) @ calls')"
        and "prefix calls' (render_calls g)"
        by blast
      with g l render_parents_ok [OF ps, of commit plantuml_code "calls @ [commit]"]
      have "render_items lib fs repo_path (item # g) plantuml_code calls =
          (Inl e, calls @ (commit # parents @ calls')) \<and>
          prefix (commit # parents @ calls') (render_calls (item # g))"
        by (simp add: item rc join_split_ws)
      then show ?thesis by blast
    qed
  qed
qed

lemma generate_ok:
  assumes "all_decodable lib fs repo_path g"
  shows "generate_plantuml_graph_calls lib fs g repo_path =
           (Inr (document lib fs repo_path g), render_calls g)"
  using render_items_ok [OF assms, of "lit ''@startuml'' @ [nl]" "[]"]
  by (simp add: generate_plantuml_graph_calls_def document_def)

lemma generate_fail:
  assumes "\<not> all_decodable lib fs repo_path g"
  shows "\<exists>e calls. generate_plantuml_graph_calls lib fs g repo_path = (Inl e, calls) \<and>
           prefix calls (render_calls g)"
  using render_items_fail [OF assms, of "lit ''@startuml'' @ [nl]" "[]"]
  by (auto simp: generate_plantuml_graph_calls_def)

lemma concat_map_mem:
  assumes "x \<in> set xs"
  shows "\<exists>a b. concat (map f xs) = a @ f x @ b"
proof -
  from assms obtain ys zs where "xs = ys @ x # zs"
    by (auto dest: split_list)
  then have "concat (map f xs) = concat (map f ys) @ f x @ concat (map f zs)"
    by simp
  then show ?thesis by blast
qed

lemma document_edge:
  assumes "(c, ps) \<in> set g" and "p \<in> set ps"
  shows "\<exists>a b. document lib fs repo_path g = a @ edge_block lib fs repo_path c p @ b"
proof -
  from concat_map_mem [OF assms(1),
      of "\<lambda>(c, ps). concat (map (edge_block lib fs repo_path c) ps)"]
  obtain a b where
    "concat (map (\<lambda>(c, ps). concat (map (edge_block lib fs repo_path c) ps)) g) =
       a @ concat (map (edge_block lib fs repo_path c) ps) @ b"
    by auto
  moreover from concat_map_mem [OF assms(2), of "edge_block lib fs repo_path c"]
  obtain a' b' where
    "concat (map (edge_block lib fs repo_path c) ps) = a' @ edge_block lib fs repo_path c p @ b'"
    by blast
  ultimately have "document lib fs repo_path g =
      (lit ''@startuml'' @ [nl] @ a @ a') @ edge_block lib fs repo_path c p @
      (b' @ b @ lit ''@enduml'')"
    by (simp add: document_def)
  then show ?thesis by blast
qed

lemma document_lines:
  assumes "(c, ps) \<in> set g" and "p \<in> set ps"
  shows "sublist (participant_line (label_of lib fs repo_path p) p) (document lib fs repo_path g)"
    and "sublist (participant_line (label_of lib fs repo_path c) c) (document lib fs repo_path g)"
    and "sublist (edge_line p c) (document lib fs repo_path g)"
proof -
  from document_edge [OF assms] obtain a b where
    d: "document lib fs repo_path g = a @ edge_block lib fs repo_path c p @ b"
    by blast
  let ?l1 = "participant_line (label_of lib fs repo_path p) p"
  let ?l2 = "participant_line (label_of lib fs repo_path c) c"
  let ?l3 = "edge_line p c"
  from d have "document lib fs repo_path g = a @ ?l1 @ (?l2 @ ?l3 @ b)"
    by (simp add: edge_block_def)
  then show "sublist ?l1 (document lib fs repo_path g)"
    unfolding sublist_def by blast
  from d have "document lib fs repo_path g = (a @ ?l1) @ ?l2 @ (?l3 @ b)"
    by (simp add: edge_block_def)
  then show "sublist ?l2 (document lib fs repo_path g)"
    unfolding sublist_def by blast
  from d have "document lib fs repo_path g = (a @ ?l1 @ ?l2) @ ?l3 @ b"
    by (simp add: edge_block_def)
  then show "sublist ?l3 (document lib fs repo_path g)"
    unfolding sublist_def by blast
qed

lemma all_decodable_edge:
  assumes "all_decodable lib fs repo_path g" and "(c, ps) \<in> set g" and "p \<in> set ps"
  shows "decodable lib fs repo_path c" and "decodable lib fs repo_path p"
  using assms by (auto simp: all_decodable_def list_all_iff)

lemma document_markers:
  "prefix (lit ''@startuml'') (document lib fs repo_path g)"
  "suffix (lit ''@enduml'') (document lib fs repo_path g)"
  by (simp_all add: document_def suffix_def)

lemma test_graph_decodable:
  "all_decodable stored_lib test_fs test_repo_dir
     [(test_commit_hash, [test_parent_hash]), (test_parent_hash, [])]"
  by (simp add: all_decodable_def decodable_def test_get_commit_data)

lemma test_labels:
  "label_of stored_lib test_fs test_repo_dir test_commit_hash = lit ''Initialcommit''"
  "label_of stored_lib test_fs test_repo_dir test_parent_hash = lit ''Parentcommit''"
  by (simp_all add: label_of_def message_of_def test_get_commit_data no_whitespace_def
      lit_def is_space_def)

section \<open>Properties of generate_plantuml_graph\<close>

text \<open>
  C8. \<open>generate_plantuml_graph\<close> returns a string exactly when every commit and every
  parent of the graph can be decoded. The string begins with \<open>@startuml\<close> and ends with
  \<open>@enduml\<close>, and for every edge, from a parent \<open>p\<close> in the parent sequence of an entry
  \<open>c\<close>, it contains the line \<open>participant <label> as <p>\<close>, the line
  \<open>participant <label> as <c>\<close> and the line \<open>"<p>" --> "<c>"\<close>, each label being the
  decoded message of the commit with all whitespace removed. In full, the string is the
  document of the specification: one such block of three lines per edge, in order.
\<close>

theorem generate_plantuml_graph_document:
  "(all_decodable lib fs repo_path g \<longrightarrow>
      generate_plantuml_graph lib fs g repo_path = Inr (document lib fs repo_path g)) \<and>
   (generate_plantuml_graph lib fs g repo_path = Inr out \<longrightarrow>
      all_decodable lib fs repo_path g \<and>
      out = document lib fs repo_path g \<and>
      prefix (lit ''@startuml'') out \<and> suffix (lit ''@enduml'') out \<and>
      (\<forall>(c, ps) \<in> set g. \<forall>p \<in> set ps.
         sublist (participant_line (label_of lib fs repo_path p) p) out \<and>
         sublist (participant_line (label_of lib fs repo_path c) c) out \<and>
         sublist (edge_line p c) out \<and>
         (\<exists>ps' m. get_commit_data lib fs repo_path p = Inr (ps', m) \<and>
            label_of lib fs repo_path p = no_whitespace m) \<and>
         (\<exists>ps' m. get_commit_data lib fs repo_path c = Inr (ps', m) \<and>
            label_of lib fs repo_path c = no_whitespace m)))"
proof (intro conjI impI)
  assume "all_decodable lib fs repo_path g"
  then show "generate_plantuml_graph lib fs g repo_path = Inr (document lib fs repo_path g)"
    by (simp add: generate_plantuml_graph_def generate_ok)
next
  assume r: "generate_plantuml_graph lib fs g repo_path = Inr out"
  show ok: "all_decodable lib fs repo_path g"
  proof (rule ccontr)
    assume "\<not> all_decodable lib fs repo_path g"
    from generate_fail [OF this] r show False
      by (auto simp: generate_plantuml_graph_def)
  qed
  with r show out: "out = document lib fs repo_path g"
    by (simp add: generate_plantuml_graph_def generate_ok)
  show "prefix (lit ''@startuml'') out" "suffix (lit ''@enduml'') out"
    unfolding out by (rule document_markers)+
  show "\<forall>(c, ps) \<in> set g. \<forall>p \<in> set ps.
         sublist (participant_line (label_of lib fs repo_path p) p) out \<and>
         sublist (participant_line (label_of lib fs repo_path c) c) out \<and>
         sublist (edge_line p c) out \<and>
         (\<exists>ps' m. get_commit_data lib fs repo_path p = Inr (ps', m) \<and>
            label_of lib fs repo_path p = no_whitespace m) \<and>
         (\<exists>ps' m. get_commit_data lib fs repo_path c = Inr (ps', m) \<and>
            label_of lib fs repo_path c = no_whitespace m)"
  proof (intro ballI, clarify)
    fix c ps p
    assume e: "(c, ps) \<in> set g" "p \<in> set ps"
    from all_decodable_edge [OF ok e] have "decodable lib fs repo_path c"
      and "decodable lib fs repo_path p"
      by simp_all
    then have "\<exists>ps' m. get_commit_data lib fs repo_path p = Inr (ps', m) \<and>
        label_of lib fs repo_path p = no_whitespace m"
      and "\<exists>ps' m. get_commit_data lib fs repo_path c = Inr (ps', m) \<and>
        label_of lib fs repo_path c = no_whitespace m"
      by (blast elim: decodableE)+
    with document_lines [OF e, of lib fs repo_path]
    show "sublist (participant_line (label_of lib fs repo_path p) p) out \<and>
         sublist (participant_line (label_of lib fs repo_path c) c) out \<and>
         sublist (edge_line p c) out \<and>
         (\<exists>ps' m. get_commit_data lib fs repo_path p = Inr (ps', m) \<and>
            label_of lib fs repo_path p = no_whitespace m) \<and>
         (\<exists>ps' m. get_commit_data lib fs repo_path c = Inr (ps', m) \<and>
            label_of lib fs repo_path c = no_whitespace m)"
      unfolding out by blast
  qed
qed

theorem generate_plantuml_graph_document_witness:
  "all_decodable stored_lib test_fs test_repo_dir
     [(test_commit_hash, [test_parent_hash]), (test_parent_hash, [])] \<and>
   generate_plantuml_graph stored_lib test_fs
     [(test_commit_hash, [test_parent_hash]), (test_parent_hash, [])] test_repo_dir =
     Inr (lit ''@startuml'' @ [nl] @
          lit ''participant Parentcommit as '' @ test_parent_hash @ [nl] @
          lit ''participant Initialcommit as '' @ test_commit_hash @ [nl] @
          [dq] @ test_parent_hash @ [dq] @ lit '' --> '' @ [dq] @ test_commit_hash @ [dq] @ [nl] @
          lit ''@enduml'') \<and>
   (test_commit_hash, [test_parent_hash]) \<in>
     set [(test_commit_hash, [test_parent_hash]), (test_parent_hash, [])] \<and>
   test_parent_hash \<in> set [test_parent_hash] \<and>
   sublist (participant_line (lit ''Parentcommit'') test_parent_hash)
     (document stored_lib test_fs test_repo_dir
        [(test_commit_hash, [test_parent_hash]), (test_parent_hash, [])]) \<and>
   sublist (participant_line (lit ''Initialcommit'') test_commit_hash)
     (document stored_lib test_fs test_repo_dir
        [(test_commit_hash, [test_parent_hash]), (test_parent_hash, [])]) \<and>
   sublist (edge_line test_parent_hash test_commit_hash)
     (document stored_lib test_fs test_repo_dir
        [(test_commit_hash, [test_parent_hash]), (test_parent_hash, [])])"
proof -
  let ?g = "[(test_commit_hash, [test_parent_hash]), (test_parent_hash, [])]"
  let ?doc = "document stored_lib test_fs test_repo_dir ?g"
  note t = generate_plantuml_graph_document
    [where lib = stored_lib and fs = test_fs and repo_path = test_repo_dir and g = ?g
       and out = ?doc]
  from t test_graph_decodable have
    gen: "generate_plantuml_graph stored_lib test_fs ?g test_repo_dir = Inr ?doc"
    by blast
  with t have "\<forall>(c, ps) \<in> set ?g. \<forall>p \<in> set ps.
      sublist (participant_line (label_of stored_lib test_fs test_repo_dir p) p) ?doc \<and>
      sublist (participant_line (label_of stored_lib test_fs test_repo_dir c) c) ?doc \<and>
      sublist (edge_line p c) ?doc"
    by blast
  then have "sublist (participant_line (lit ''Parentcommit'') test_parent_hash) ?doc \<and>
      sublist (participant_line (lit ''Initialcommit'') test_commit_hash) ?doc \<and>
      sublist (edge_line test_parent_hash test_commit_hash) ?doc"
    by (simp add: test_labels)
  moreover have "?doc = lit ''@startuml'' @ [nl] @
      lit ''participant Parentcommit as '' @ test_parent_hash @ [nl] @
      lit ''participant Initialcommit as '' @ test_commit_hash @ [nl] @
      [dq] @ test_parent_hash @ [dq] @ lit '' --> '' @ [dq] @ test_commit_hash @ [dq] @ [nl] @
      lit ''@enduml''"
    by (simp add: document_def edge_block_def test_labels participant_line_def edge_line_def
        lit_def)
  ultimately show ?thesis
    using test_graph_decodable gen by simp
qed

text \<open>
  C9, as amended. For each entry of the graph the renderer decodes the commit's object
  once, also when the entry has no parents, and for each parent in the entry's parent
  sequence it decodes the parent's object once: one commit-decode per entry and one
  parent-decode per parent. A run that ends in an error has made a prefix of these decodes.
  The decodes serve the labels only: the string returned is the document built from the
  whitespace-stripped messages.
\<close>

theorem generate_plantuml_graph_decodes:
  "prefix (snd (generate_plantuml_graph_calls lib fs g repo_path)) (render_calls g) \<and>
   (all_decodable lib fs repo_path g \<longrightarrow>
      generate_plantuml_graph_calls lib fs g repo_path =
        (Inr (document lib fs repo_path g), render_calls g)) \<and>
   (fst (generate_plantuml_graph_calls lib fs g repo_path) = Inr out \<longrightarrow>
      snd (generate_plantuml_graph_calls lib fs g repo_path) = render_calls g \<and>
      out = document lib fs repo_path g)"
proof (cases "all_decodable lib fs repo_path g")
  case True
  then show ?thesis
    by (simp add: generate_ok)
next
  case False
  from generate_fail [OF this] obtain e calls where
    "generate_plantuml_graph_calls lib fs g repo_path = (Inl e, calls)"
    and "prefix calls (render_calls g)"
    by blast
  with False show ?thesis
    by simp
qed

theorem generate_plantuml_graph_decodes_witness:
  "all_decodable stored_lib test_fs test_repo_dir
     [(test_commit_hash, [test_parent_hash]), (test_parent_hash, [])] \<and>
   snd (generate_plantuml_graph_calls stored_lib test_fs
     [(test_commit_hash, [test_parent_hash]), (test_parent_hash, [])] test_repo_dir) =
     [test_commit_hash, test_parent_hash, test_parent_hash] \<and>
   fst (generate_plantuml_graph_calls stored_lib test_fs
     [(test_commit_hash, [test_parent_hash]), (test_parent_hash, [])] test_repo_dir) =
     Inr (document stored_lib test_fs test_repo_dir
       [(test_commit_hash, [test_parent_hash]), (test_parent_hash, [])])"
proof -
  let ?g = "[(test_commit_hash, [test_parent_hash]), (test_parent_hash, [])]"
  note t = generate_plantuml_graph_decodes
    [where lib = stored_lib and fs = test_fs and repo_path = test_repo_dir and g = ?g
       and out = "document stored_lib test_fs test_repo_dir ?g"]
  from t test_graph_decodable have
    "generate_plantuml_graph_calls stored_lib test_fs ?g test_repo_dir =
       (Inr (document stored_lib test_fs test_repo_dir ?g), render_calls ?g)"
    by blast
  with test_graph_decodable show ?thesis
    by (simp add: render_calls_def)
qed

text \<open>
  The count of the specification, one commit-decode and one parent-decode per parent,
  fails on the graph that \<open>get_commit_graph\<close> returns for the repository of test2.py: the
  parent commit is an entry without parents and is decoded for it, so it is decoded twice,
  where the specification counts one decode.
\<close>

theorem generate_plantuml_graph_decodes_counterexample:
  "snd (generate_plantuml_graph_calls stored_lib test_fs
     [(test_commit_hash, [test_parent_hash]), (test_parent_hash, [])] test_repo_dir) =
     [test_commit_hash, test_parent_hash, test_parent_hash] \<and>
   claimed_render_calls [(test_commit_hash, [test_parent_hash]), (test_parent_hash, [])] =
     [test_commit_hash, test_parent_hash] \<and>
   count_list [test_commit_hash, test_parent_hash, test_parent_hash] test_parent_hash = 2 \<and>
   count_list [test_commit_hash, test_parent_hash] test_parent_hash = 1"
  using hashes_ok(5)
  by (simp add: generate_ok [OF test_graph_decodable] render_calls_def claimed_render_calls_def)

end
